theory Spec2Isabelle
  imports Main
begin

section \<open>The gin engine of gin.go\<close>

text \<open>
  A shallow embedding of \<^verbatim>\<open>gin.go\<close>: the engine with its fallback chains, the
  no-route and no-method dispatchers, the registration of custom handlers, the drain
  trigger and the administrative handlers.  The Context, its response writer and the
  router group live in other files of the package; what this file needs of them is
  modelled from the specification and marked as such.
\<close>

subsection \<open>Constants\<close>

definition MaxInt8 :: int where
  "MaxInt8 = 127"

text \<open>\<^verbatim>\<open>AbortIndex = math.MaxInt8 / 2\<close>; both operands are positive, so Go's truncating
  division and \<open>div\<close> agree.\<close>

definition AbortIndex :: int where
  "AbortIndex = MaxInt8 div 2"

definition MIMEJSON :: string where
  "MIMEJSON = ''application/json''"

definition MIMEPlain :: string where
  "MIMEPlain = ''text/plain''"

subsection \<open>Responses and the response writer\<close>

type_synonym bytes = string

text \<open>A JSON value as the handlers build it (\<^verbatim>\<open>gin.H\<close>, slices, strings).  A Go map has
  no key order; an object is kept as the list of its entries in the order of the source
  literal.\<close>

datatype json = JStr string | JArr "json list" | JObj "(string \<times> json) list"

text \<open>What reaches the transport's \<^verbatim>\<open>http.ResponseWriter\<close>: raw bytes, or a value handed
  to the JSON encoder (the encoder itself is an external collaborator).\<close>

datatype payload = Bytes bytes | Encoded json

record httpResponse =
  hdr :: "(string \<times> string) list"
  sent_status :: "int option"
  sent_body :: "payload list"

datatype error = OutOfFuel | NilDereference | IndexOutOfRange

text \<open>Modelled from the spec: the output writer wrapper of the Context
  (\<^verbatim>\<open>responseWriter\<close>, declared outside gin.go).  It wraps the transport's writer, holds the
  status that will be sent and tracks whether the headers have been flushed.  A nil
  transport writer is \<open>None\<close>; using it panics.\<close>

record responseWriter =
  ResponseWriter :: "httpResponse option"
  status :: int
  flushed :: bool

definition reset :: "httpResponse \<Rightarrow> responseWriter \<Rightarrow> responseWriter" where
  "reset w rw = rw\<lparr>ResponseWriter := Some w, status := 200, flushed := False\<rparr>"

definition Written :: "responseWriter \<Rightarrow> bool" where
  "Written rw = flushed rw"

definition Status :: "responseWriter \<Rightarrow> int" where
  "Status rw = status rw"

definition WriteHeader :: "int \<Rightarrow> responseWriter \<Rightarrow> error + responseWriter" where
  "WriteHeader code rw = Inr (rw\<lparr>status := code\<rparr>)"

definition WriteHeaderNow :: "responseWriter \<Rightarrow> error + responseWriter" where
  "WriteHeaderNow rw =
     (if \<not> Written rw then
        (case ResponseWriter rw of
           None \<Rightarrow> Inl NilDereference
         | Some r \<Rightarrow>
             Inr (rw\<lparr>flushed := True,
                      ResponseWriter := Some (r\<lparr>sent_status := Some (status rw)\<rparr>)\<rparr>))
      else Inr rw)"

definition Write :: "payload \<Rightarrow> responseWriter \<Rightarrow> error + responseWriter" where
  "Write p rw =
     (case WriteHeaderNow rw of
        Inl x \<Rightarrow> Inl x
      | Inr rw1 \<Rightarrow>
          (case ResponseWriter rw1 of
             None \<Rightarrow> Inl NilDereference
           | Some r \<Rightarrow> Inr (rw1\<lparr>ResponseWriter := Some (r\<lparr>sent_body := sent_body r @ [p]\<rparr>)\<rparr>)))"

fun header_set :: "string \<Rightarrow> string \<Rightarrow> (string \<times> string) list \<Rightarrow> (string \<times> string) list" where
  "header_set k v [] = [(k, v)]"
| "header_set k v ((k', v') # hs) =
     (if k' = k then (k, v) # hs else (k', v') # header_set k v hs)"

definition HeaderSet :: "string \<Rightarrow> string \<Rightarrow> responseWriter \<Rightarrow> error + responseWriter" where
  "HeaderSet k v rw =
     (case ResponseWriter rw of
        None \<Rightarrow> Inl NilDereference
      | Some r \<Rightarrow> Inr (rw\<lparr>ResponseWriter := Some (r\<lparr>hdr := header_set k v (hdr r)\<rparr>)\<rparr>))"

subsection \<open>The Context and its handler chain\<close>

text \<open>A \<^verbatim>\<open>HandlerFunc\<close> is a Go function over the Context.  The model represents one by
  the sequence of Context operations it performs: calls of \<^verbatim>\<open>c.Next()\<close> and
  \<^verbatim>\<open>c.Abort()\<close>, and calls on \<^verbatim>\<open>c.Writer\<close>.\<close>

datatype writer_call =
    CWriteHeader int
  | CWriteHeaderNow
  | CWrite bytes
  | CHeaderSet string string

datatype action = CallNext | CallAbort | OnWriter writer_call

type_synonym HandlerFunc = "action list"

record Request =
  form :: "(string \<times> string) list"

text \<open>The field \<^verbatim>\<open>Writer\<close> of a Context is an interface value: nil in a zero Context,
  \<^verbatim>\<open>&c.writermem\<close> after \<^verbatim>\<open>pool.New\<close>.\<close>

datatype writer_ref = NilWriter | OwnWritermem

text \<open>Modelled from the spec: the Context (declared outside gin.go): a reference to the
  Engine, the handler chain, an integer cursor into the chain and the output writer
  wrapper.  The Engine is referred to by its address.\<close>

record Context =
  Engine_ref :: "nat option"
  Writer :: writer_ref
  writermem :: responseWriter
  Request_ref :: "Request option"
  handlers :: "HandlerFunc list"
  index :: int

definition zero_responseWriter :: responseWriter where
  "zero_responseWriter = \<lparr>ResponseWriter = None, status = 0, flushed = False\<rparr>"

definition zero_Context :: Context where
  "zero_Context =
     \<lparr>Engine_ref = None, Writer = NilWriter, writermem = zero_responseWriter,
      Request_ref = None, handlers = [], index = 0\<rparr>"

text \<open>A call \<^verbatim>\<open>c.Writer.m(...)\<close>: a nil \<^verbatim>\<open>Writer\<close> panics, otherwise the method runs on
  the Context's own writer storage.\<close>

definition on_writer ::
  "(responseWriter \<Rightarrow> error + responseWriter) \<Rightarrow> Context \<Rightarrow> error + Context" where
  "on_writer f c =
     (case Writer c of
        NilWriter \<Rightarrow> Inl NilDereference
      | OwnWritermem \<Rightarrow>
          (case f (writermem c) of
             Inl x \<Rightarrow> Inl x
           | Inr rw \<Rightarrow> Inr (c\<lparr>writermem := rw\<rparr>)))"

definition writer_of :: "Context \<Rightarrow> error + responseWriter" where
  "writer_of c =
     (case Writer c of NilWriter \<Rightarrow> Inl NilDereference | OwnWritermem \<Rightarrow> Inr (writermem c))"

fun call_writer :: "writer_call \<Rightarrow> responseWriter \<Rightarrow> error + responseWriter" where
  "call_writer (CWriteHeader code) rw = WriteHeader code rw"
| "call_writer CWriteHeaderNow rw = WriteHeaderNow rw"
| "call_writer (CWrite b) rw = Write (Bytes b) rw"
| "call_writer (CHeaderSet k v) rw = HeaderSet k v rw"

text \<open>Modelled from the spec: \<^verbatim>\<open>c.Data(code, contentType, data)\<close>, which writes a body with
  a content type; gin.go calls it with code \<open>-1\<close> to keep the status that is set.\<close>

definition Data :: "int \<Rightarrow> string \<Rightarrow> bytes \<Rightarrow> Context \<Rightarrow> error + Context" where
  "Data code contentType body c =
     (case (if contentType \<noteq> [] then on_writer (HeaderSet ''Content-Type'' contentType) c
            else Inr c) of
        Inl x \<Rightarrow> Inl x
      | Inr c1 \<Rightarrow>
          (case (if 0 \<le> code then on_writer (WriteHeader code) c1 else Inr c1) of
             Inl x \<Rightarrow> Inl x
           | Inr c2 \<Rightarrow> on_writer (Write (Bytes body)) c2))"

text \<open>Modelled from the spec: \<^verbatim>\<open>c.JSON(code, obj)\<close>, which sends \<open>obj\<close> through the JSON
  encoder with the given status.\<close>

definition JSON :: "int \<Rightarrow> json \<Rightarrow> Context \<Rightarrow> error + Context" where
  "JSON code obj c =
     (case on_writer (HeaderSet ''Content-Type'' MIMEJSON) c of
        Inl x \<Rightarrow> Inl x
      | Inr c1 \<Rightarrow>
          (case on_writer (WriteHeader code) c1 of
             Inl x \<Rightarrow> Inl x
           | Inr c2 \<Rightarrow> on_writer (Write (Encoded obj)) c2))"

text \<open>Modelled from the spec: abort sets the cursor to the sentinel, which gin.go
  declares as \<^verbatim>\<open>AbortIndex\<close>.\<close>

definition Abort :: "Context \<Rightarrow> Context" where
  "Abort c = c\<lparr>index := AbortIndex\<rparr>"

text \<open>The executor is observed through the events it goes through: the handler at a
  position begins, the handler at a position calls abort.\<close>

datatype event = Began nat | Aborted nat

type_synonym exec_state = "Context \<times> event list"

text \<open>Modelled from the spec: \<^verbatim>\<open>c.Next()\<close> (declared outside gin.go) advances the cursor
  and invokes the handlers at increasing cursor positions until the cursor reaches the
  chain length; a handler that calls it runs the remaining handlers as a nested call.
  \<open>run\<close> is the body of the handler at position \<open>pos\<close>, \<open>loop\<close> the loop of
  \<open>Next\<close>.  The first argument is fuel: the recursion is nested, and a chain longer
  than the sentinel can start over after an abort.  A negative cursor indexes the chain
  out of range, which panics.\<close>

fun run :: "nat \<Rightarrow> nat \<Rightarrow> action list \<Rightarrow> exec_state \<Rightarrow> error + exec_state"
  and Next :: "nat \<Rightarrow> exec_state \<Rightarrow> error + exec_state"
  and loop :: "nat \<Rightarrow> exec_state \<Rightarrow> error + exec_state" where
  "run n pos [] st = Inr st"
| "run n pos (CallNext # as) st =
     (case Next n st of Inl x \<Rightarrow> Inl x | Inr st' \<Rightarrow> run n pos as st')"
| "run n pos (CallAbort # as) (c, tr) = run n pos as (Abort c, tr @ [Aborted pos])"
| "run n pos (OnWriter f # as) (c, tr) =
     (case on_writer (call_writer f) c of
        Inl x \<Rightarrow> Inl x
      | Inr c' \<Rightarrow> run n pos as (c', tr))"
| "Next 0 st = Inl OutOfFuel"
| "Next (Suc n) (c, tr) = loop n (c\<lparr>index := index c + 1\<rparr>, tr)"
| "loop 0 st = Inl OutOfFuel"
| "loop (Suc n) (c, tr) =
     (if index c < int (length (handlers c)) then
        (if index c < 0 then Inl IndexOutOfRange
         else
           (case run n (nat (index c)) (handlers c ! nat (index c))
                   (c, tr @ [Began (nat (index c))]) of
              Inl x \<Rightarrow> Inl x
            | Inr (c', tr') \<Rightarrow> loop n (c'\<lparr>index := index c' + 1\<rparr>, tr')))
      else Inr (c, tr))"

subsection \<open>The Engine\<close>

text \<open>Modelled from the spec: \<^verbatim>\<open>LoggerInfo\<close> (declared outside gin.go): a name and a
  handle to a live, mutable logging backend.  The handle is an address into a store of
  backends, so that two registrations may share one backend.\<close>

record LoggerInfo =
  Name :: string
  LLogger :: nat

record HandlerInfo =
  Method :: string
  Path :: string
  Handler :: HandlerFunc

text \<open>The Engine of gin.go.  \<open>self\<close> is the address of the Engine (Contexts point back
  to it), \<open>Handlers\<close> the middleware list of the embedded root \<^verbatim>\<open>RouterGroup\<close>,
  \<open>pool\<close> the content of the \<^verbatim>\<open>sync.Pool\<close>, and \<open>router\<close> the routes registered
  with the external router, in registration order.\<close>

record Engine =
  self :: nat
  Handlers :: "HandlerFunc list"
  Default404Body :: bytes
  Default405Body :: bytes
  pool :: "Context list"
  allNoRouteNoMethod :: "HandlerFunc list"
  noRoute :: "HandlerFunc list"
  noMethod :: "HandlerFunc list"
  router :: "(string \<times> string \<times> HandlerFunc list) list"
  logger :: "LoggerInfo list"

definition New :: "nat \<Rightarrow> Engine" where
  "New a =
     \<lparr>self = a, Handlers = [], Default404Body = ''404 page not found'',
      Default405Body = ''405 method not allowed'', pool = [], allNoRouteNoMethod = [],
      noRoute = [], noMethod = [], router = [], logger = []\<rparr>"

text \<open>\<^verbatim>\<open>engine.pool.New\<close>: a zero Context with the Engine set and \<^verbatim>\<open>Writer\<close> pointing at
  the Context's own \<^verbatim>\<open>writermem\<close>.\<close>

definition pool_New :: "Engine \<Rightarrow> Context" where
  "pool_New e = zero_Context\<lparr>Engine_ref := Some (self e), Writer := OwnWritermem\<rparr>"

text \<open>\<^verbatim>\<open>sync.Pool.Get\<close> removes and returns an arbitrary pooled item, or treats the pool
  as empty and calls \<^verbatim>\<open>New\<close>.  The choice is the argument \<open>pick\<close>: \<open>Some k\<close> takes the
  item at position \<open>k\<close> when there is one, anything else allocates.\<close>

definition pool_Get :: "nat option \<Rightarrow> Engine \<Rightarrow> Context \<times> Engine" where
  "pool_Get pick e =
     (case pick of
        None \<Rightarrow> (pool_New e, e)
      | Some k \<Rightarrow>
          (if k < length (pool e)
           then (pool e ! k, e\<lparr>pool := take k (pool e) @ drop (Suc k) (pool e)\<rparr>)
           else (pool_New e, e)))"

definition pool_Put :: "Context \<Rightarrow> Engine \<Rightarrow> Engine" where
  "pool_Put c e = e\<lparr>pool := c # pool e\<rparr>"

text \<open>Modelled from the spec: the acquire operation of the Context Pool (inside
  \<^verbatim>\<open>createContext\<close>, declared outside gin.go): it takes a Context from the pool, or a
  new one, and resets the writer state, the chain and the cursor.\<close>

definition acquire :: "nat option \<Rightarrow> Engine \<Rightarrow> Context \<times> Engine" where
  "acquire pick e =
     (case pool_Get pick e of
        (c, e') \<Rightarrow>
          (c\<lparr>writermem := (writermem c)\<lparr>ResponseWriter := None, status := 200, flushed := False\<rparr>,
             handlers := [], index := - 1\<rparr>, e'))"

text \<open>Modelled from the spec: \<^verbatim>\<open>createContext(w, req, params, handlers)\<close> as gin.go calls
  it: a Context is acquired and bound to the transport's writer, the request and the
  chain of this request.\<close>

definition createContext ::
  "nat option \<Rightarrow> Engine \<Rightarrow> httpResponse \<Rightarrow> Request \<Rightarrow> HandlerFunc list \<Rightarrow> Context \<times> Engine" where
  "createContext pick e w req hs =
     (case acquire pick e of
        (c, e') \<Rightarrow>
          (c\<lparr>writermem := reset w (writermem c), Request_ref := Some req, handlers := hs\<rparr>, e'))"

text \<open>Modelled from the spec: \<^verbatim>\<open>reuseContext\<close>, the release operation of the pool.\<close>

definition reuseContext :: "Context \<Rightarrow> Engine \<Rightarrow> Engine" where
  "reuseContext c e = pool_Put c e"

text \<open>Modelled from the spec: \<^verbatim>\<open>RouterGroup.combineHandlers\<close> and \<^verbatim>\<open>RouterGroup.Use\<close>
  (declared outside gin.go): a chain is the global middleware followed by the given
  handlers; \<^verbatim>\<open>Use\<close> appends to the global middleware.\<close>

definition combineHandlers :: "Engine \<Rightarrow> HandlerFunc list \<Rightarrow> HandlerFunc list" where
  "combineHandlers e hs = Handlers e @ hs"

definition RouterGroup_Use :: "HandlerFunc list \<Rightarrow> Engine \<Rightarrow> Engine" where
  "RouterGroup_Use middlewares e = e\<lparr>Handlers := Handlers e @ middlewares\<rparr>"

definition rebuild404Handlers :: "Engine \<Rightarrow> Engine" where
  "rebuild404Handlers e = e\<lparr>allNoRouteNoMethod := combineHandlers e (noRoute e)\<rparr>"

definition rebuild405Handlers :: "Engine \<Rightarrow> Engine" where
  "rebuild405Handlers e = e\<lparr>allNoRouteNoMethod := combineHandlers e (noMethod e)\<rparr>"

definition NoRoute :: "HandlerFunc list \<Rightarrow> Engine \<Rightarrow> Engine" where
  "NoRoute hs e = rebuild404Handlers (e\<lparr>noRoute := hs\<rparr>)"

definition NoMethod :: "HandlerFunc list \<Rightarrow> Engine \<Rightarrow> Engine" where
  "NoMethod hs e = rebuild405Handlers (e\<lparr>noMethod := hs\<rparr>)"

definition Use :: "HandlerFunc list \<Rightarrow> Engine \<Rightarrow> Engine" where
  "Use middlewares e = rebuild405Handlers (rebuild404Handlers (RouterGroup_Use middlewares e))"

text \<open>Modelled from the spec: the registration of a route with the external router
  (\<^verbatim>\<open>register(method, path, handlerChain)\<close>), reached through \<^verbatim>\<open>engine.GET\<close>,
  \<^verbatim>\<open>engine.DELETE\<close>, \<^verbatim>\<open>engine.POST\<close> and \<^verbatim>\<open>engine.PUT\<close> of the root group.\<close>

definition Handle :: "string \<Rightarrow> string \<Rightarrow> HandlerFunc list \<Rightarrow> Engine \<Rightarrow> Engine" where
  "Handle method path hs e = e\<lparr>router := router e @ [(method, path, combineHandlers e hs)]\<rparr>"

definition GET :: "string \<Rightarrow> HandlerFunc \<Rightarrow> Engine \<Rightarrow> Engine" where
  "GET path h e = Handle ''GET'' path [h] e"

definition DELETE :: "string \<Rightarrow> HandlerFunc \<Rightarrow> Engine \<Rightarrow> Engine" where
  "DELETE path h e = Handle ''DELETE'' path [h] e"

definition POST :: "string \<Rightarrow> HandlerFunc \<Rightarrow> Engine \<Rightarrow> Engine" where
  "POST path h e = Handle ''POST'' path [h] e"

definition PUT :: "string \<Rightarrow> HandlerFunc \<Rightarrow> Engine \<Rightarrow> Engine" where
  "PUT path h e = Handle ''PUT'' path [h] e"

definition RigsterHttpHandler :: "HandlerInfo \<Rightarrow> Engine \<Rightarrow> Engine" where
  "RigsterHttpHandler hi e =
     (if Method hi = ''GET'' then GET (Path hi) (Handler hi) e
      else if Method hi = ''DELETE'' then DELETE (Path hi) (Handler hi) e
      else if Method hi = ''POST'' then POST (Path hi) (Handler hi) e
      else if Method hi = ''PUT'' then PUT (Path hi) (Handler hi) e
      else GET (Path hi) (Handler hi) e)"

subsection \<open>The fallback dispatchers\<close>

definition handle404 ::
  "nat \<Rightarrow> nat option \<Rightarrow> Engine \<Rightarrow> httpResponse \<Rightarrow> Request \<Rightarrow> error + (Context \<times> Engine)" where
  "handle404 n pick e w req =
     (case createContext pick e w req (allNoRouteNoMethod e) of
        (c, e1) \<Rightarrow>
          (case on_writer (WriteHeader 404) c of
             Inl x \<Rightarrow> Inl x
           | Inr c1 \<Rightarrow>
               (case Next n (c1, []) of
                  Inl x \<Rightarrow> Inl x
                | Inr (c2, tr) \<Rightarrow>
                    (case writer_of c2 of
                       Inl x \<Rightarrow> Inl x
                     | Inr rw \<Rightarrow>
                         (if \<not> Written rw then
                            (if Status rw = 404 then
                               (case Data (- 1) MIMEPlain (Default404Body e1) c2 of
                                  Inl x \<Rightarrow> Inl x
                                | Inr c3 \<Rightarrow> Inr (c3, reuseContext c3 e1))
                             else
                               (case on_writer WriteHeaderNow c2 of
                                  Inl x \<Rightarrow> Inl x
                                | Inr c3 \<Rightarrow> Inr (c3, reuseContext c3 e1)))
                          else Inr (c2, reuseContext c2 e1))))))"

definition handle405 ::
  "nat \<Rightarrow> nat option \<Rightarrow> Engine \<Rightarrow> httpResponse \<Rightarrow> Request \<Rightarrow> error + (Context \<times> Engine)" where
  "handle405 n pick e w req =
     (case createContext pick e w req (allNoRouteNoMethod e) of
        (c, e1) \<Rightarrow>
          (case on_writer (WriteHeader 405) c of
             Inl x \<Rightarrow> Inl x
           | Inr c1 \<Rightarrow>
               (case Next n (c1, []) of
                  Inl x \<Rightarrow> Inl x
                | Inr (c2, tr) \<Rightarrow>
                    (case writer_of c2 of
                       Inl x \<Rightarrow> Inl x
                     | Inr rw \<Rightarrow>
                         (if \<not> Written rw then
                            (if Status rw = 405 then
                               (case Data (- 1) MIMEPlain (Default405Body e1) c2 of
                                  Inl x \<Rightarrow> Inl x
                                | Inr c3 \<Rightarrow> Inr (c3, reuseContext c3 e1))
                             else
                               (case on_writer WriteHeaderNow c2 of
                                  Inl x \<Rightarrow> Inl x
                                | Inr c3 \<Rightarrow> Inr (c3, reuseContext c3 e1)))
                          else Inr (c2, reuseContext c2 e1))))))"

subsection \<open>Observations on a run of the chain\<close>

fun began :: "event \<Rightarrow> bool" where
  "began (Began i) = True"
| "began (Aborted i) = False"

text \<open>\<open>quiet tr\<close>: in the trace \<open>tr\<close> no handler begins after the first abort.\<close>

fun quiet :: "event list \<Rightarrow> bool" where
  "quiet [] = True"
| "quiet (Aborted i # es) = (filter began es = [])"
| "quiet (Began i # es) = quiet es"

definition aborted :: "event list \<Rightarrow> bool" where
  "aborted tr = (filter (\<lambda>e. \<not> began e) tr \<noteq> [])"

text \<open>The invariant of a run of a chain of at most \<open>AbortIndex + 1\<close> handlers: once a
  handler has aborted, the cursor is at least \<open>k\<close>.\<close>

definition abort_inv :: "int \<Rightarrow> exec_state \<Rightarrow> bool" where
  "abort_inv k st =
     (int (length (handlers (fst st))) \<le> AbortIndex + 1 \<and> quiet (snd st) \<and>
      (\<not> aborted (snd st) \<or> k \<le> index (fst st)))"

text \<open>A Context on which a chain can run to its end: the chain is no longer than the
  sentinel allows, the cursor is at its start or beyond, and the writer is in place.\<close>

definition chain_ready :: "Context \<Rightarrow> bool" where
  "chain_ready c =
     (int (length (handlers c)) \<le> AbortIndex + 1 \<and> - 1 \<le> index c \<and>
      Writer c = OwnWritermem \<and> ResponseWriter (writermem c) \<noteq> None)"

text \<open>The number of chain positions after the cursor.\<close>

definition remaining :: "Context \<Rightarrow> nat" where
  "remaining c = nat (int (length (handlers c)) - 1 - index c)"

subsection \<open>The fallback protocol, in the words of the specification\<close>

text \<open>The state in which the dispatcher hands the Context to the chain: the default
  status is set, nothing is written, the Context is bound to the transport's writer and
  to the chain, the cursor is at the start.\<close>

definition preset_for :: "int \<Rightarrow> HandlerFunc list \<Rightarrow> httpResponse \<Rightarrow> Context \<Rightarrow> bool" where
  "preset_for code hs w c =
     (Status (writermem c) = code \<and> \<not> Written (writermem c) \<and>
      ResponseWriter (writermem c) = Some w \<and> handlers c = hs \<and> index c = - 1)"

text \<open>What the dispatcher makes of the Context \<open>c2\<close> that the chain leaves: if something
  was written, nothing; if nothing was written and the status is still the default, the
  default body goes out with a plain-text content type under the default status; if
  nothing was written and the status was changed, the headers are flushed with the
  changed status and no body is written.\<close>

definition finished_as :: "int \<Rightarrow> bytes \<Rightarrow> Context \<Rightarrow> Context \<Rightarrow> bool" where
  "finished_as code body c2 c3 =
     (if Written (writermem c2) then c3 = c2
      else
        (case ResponseWriter (writermem c2) of
           None \<Rightarrow> False
         | Some r \<Rightarrow>
             if Status (writermem c2) = code then
               c3 = c2\<lparr>writermem := (writermem c2)
                      \<lparr>flushed := True,
                       ResponseWriter := Some
                         (r\<lparr>hdr := header_set ''Content-Type'' ''text/plain'' (hdr r),
                            sent_status := Some code,
                            sent_body := sent_body r @ [Bytes body]\<rparr>)\<rparr>\<rparr>
             else
               c3 = c2\<lparr>writermem := (writermem c2)
                      \<lparr>flushed := True,
                       ResponseWriter := Some
                         (r\<lparr>sent_status := Some (Status (writermem c2))\<rparr>)\<rparr>\<rparr>))"

text \<open>An Engine whose fallback chain can run to its end: the chain is no longer than
  the sentinel allows and every pooled Context has its \<^verbatim>\<open>Writer\<close> in place (as every
  Context made by \<^verbatim>\<open>pool.New\<close> has).\<close>

definition pool_ready :: "Engine \<Rightarrow> bool" where
  "pool_ready e =
     (int (length (allNoRouteNoMethod e)) \<le> AbortIndex + 1 \<and>
      list_all (\<lambda>c. Writer c = OwnWritermem) (pool e))"

subsection \<open>Sequences of pool operations\<close>

datatype pool_op = Acquire "nat option" | Release Context

text \<open>\<open>run_pool ops e\<close> performs the operations in order and returns the Contexts that
  were acquired, in order, with the engine that results.  A release may hand back a
  Context in any state.\<close>

fun run_pool :: "pool_op list \<Rightarrow> Engine \<Rightarrow> Context list \<times> Engine" where
  "run_pool [] e = ([], e)"
| "run_pool (Acquire pick # ops) e =
     (case acquire pick e of
        (c, e') \<Rightarrow> (case run_pool ops e' of (cs, e'') \<Rightarrow> (c # cs, e'')))"
| "run_pool (Release c # ops) e = run_pool ops (reuseContext c e)"

fun is_Acquire :: "pool_op \<Rightarrow> bool" where
  "is_Acquire (Acquire pick) = True"
| "is_Acquire (Release c) = False"

text \<open>The clean state of the specification: cursor at the start, writer unflushed and
  bound to no transport writer, chain unset.\<close>

definition clean :: "Context \<Rightarrow> bool" where
  "clean c =
     (index c = - 1 \<and> \<not> Written (writermem c) \<and> ResponseWriter (writermem c) = None \<and>
      handlers c = [])"

subsection \<open>The drain trigger\<close>

text \<open>The process-wide state the drain trigger works on: the \<^verbatim>\<open>sync.Once\<close> value
  \<^verbatim>\<open>exitOnce\<close> (whether its function has run), the exit flag that \<^verbatim>\<open>setExit\<close> sets, the
  lines written by \<^verbatim>\<open>log.Println\<close> and \<^verbatim>\<open>log.Printf\<close>, and the exit code once
  \<^verbatim>\<open>os.Exit\<close> has been called.\<close>

record process =
  exitOnce :: bool
  exit_flag :: bool
  log_lines :: "string list"
  exited :: "int option"

definition init_process :: process where
  "init_process = \<lparr>exitOnce = False, exit_flag = False, log_lines = [], exited = None\<rparr>"

definition Println :: "string \<Rightarrow> process \<Rightarrow> process" where
  "Println l s = s\<lparr>log_lines := log_lines s @ [l]\<rparr>"

text \<open>Modelled from the spec: \<^verbatim>\<open>setExit\<close> (declared outside gin.go) sets the global flag
  that marks the shutdown as initiated.\<close>

definition setExit :: "bool \<Rightarrow> process \<Rightarrow> process" where
  "setExit b s = s\<lparr>exit_flag := b\<rparr>"

text \<open>The \<^verbatim>\<open>select\<close> of the drain wait receives either from the channel that is fed
  when \<^verbatim>\<open>wgReqs.Wait()\<close> returns or from the 60 second timer; which one is decided by
  the in-flight requests and the clock, outside the function.\<close>

datatype drain = Drained | TimedOut

definition onceFunc :: "drain \<Rightarrow> process \<Rightarrow> process" where
  "onceFunc d s =
     (case d of
        Drained \<Rightarrow> Println ''gin: graceful exit OK'' (setExit True (Println ''gin: graceful exiting...'' s))
      | TimedOut \<Rightarrow>
          Println ''gin: graceful exit timeout'' (setExit True (Println ''gin: graceful exiting...'' s)))"

text \<open>\<^verbatim>\<open>sync.Once.Do\<close> on \<^verbatim>\<open>exitOnce\<close>: the function runs if it has not run before, and
  the Once is done when it returns.  Calls are serialised by the Once.\<close>

definition exitOnce_Do :: "(process \<Rightarrow> process) \<Rightarrow> process \<Rightarrow> process" where
  "exitOnce_Do f s = (if exitOnce s then s else (f s)\<lparr>exitOnce := True\<rparr>)"

definition gracefulExit :: "drain \<Rightarrow> process \<Rightarrow> process" where
  "gracefulExit d s = exitOnce_Do (onceFunc d) s"

text \<open>The three sources of an invocation: a signal received by \<^verbatim>\<open>HandleSignal\<close> (which
  logs the signal, triggers, and logs its deferred farewell), the goroutine started by
  \<^verbatim>\<open>gracefulExitHandler\<close> (the handler logs the client, the goroutine triggers and then
  calls \<^verbatim>\<open>os.Exit(0)\<close>), and a direct call.  After \<^verbatim>\<open>os.Exit\<close> the process does nothing
  more.\<close>

datatype source = Signal string | HTTP string | Direct

definition HandleSignal :: "string \<Rightarrow> drain \<Rightarrow> process \<Rightarrow> process" where
  "HandleSignal sig d s =
     Println ''gin: ByeBye!''
       (gracefulExit d (Println (''gin: graceful exit action from signal ['' @ sig @ '']'') s))"

definition gracefulExitHandler_process :: "string \<Rightarrow> drain \<Rightarrow> process \<Rightarrow> process" where
  "gracefulExitHandler_process ip d s =
     (gracefulExit d (Println (''gin: graceful exit action from http api ['' @ ip @ '']'') s))
       \<lparr>exited := Some 0\<rparr>"

fun invoke :: "source \<times> drain \<Rightarrow> process \<Rightarrow> process" where
  "invoke (src, d) s =
     (if exited s \<noteq> None then s
      else
        (case src of
           Signal sig \<Rightarrow> HandleSignal sig d s
         | HTTP ip \<Rightarrow> gracefulExitHandler_process ip d s
         | Direct \<Rightarrow> gracefulExit d s))"

text \<open>The number of times the body of the trigger has run: it announces itself with
  one log line.\<close>

definition body_runs :: "process \<Rightarrow> nat" where
  "body_runs s = length (filter (\<lambda>l. l = ''gin: graceful exiting...'') (log_lines s))"

section \<open>The handler chain\<close>

lemma quiet_snoc: "quiet (tr @ [e]) = (quiet tr \<and> (began e \<longrightarrow> \<not> aborted tr))"
proof (induction tr rule: quiet.induct)
  case 1
  show ?case by (cases e) (simp_all add: aborted_def)
next
  case (2 i es)
  show ?case by (auto simp: aborted_def filter_empty_conv)
next
  case (3 i es)
  then show ?case by (simp add: aborted_def)
qed

lemma aborted_snoc: "aborted (tr @ [e]) = (aborted tr \<or> \<not> began e)"
  by (auto simp: aborted_def)

lemma on_writer_keeps:
  "on_writer f c = Inr c' \<Longrightarrow> handlers c' = handlers c \<and> index c' = index c \<and> Writer c' = Writer c"
  by (auto simp: on_writer_def split: writer_ref.splits sum.splits)

lemma abort_inv_mono: "abort_inv (k + 1) st \<Longrightarrow> abort_inv k st"
  by (auto simp: abort_inv_def)

lemma exec_inv:
  "run n pos as st = Inr st' \<Longrightarrow> abort_inv AbortIndex st \<Longrightarrow>
     handlers (fst st') = handlers (fst st) \<and> abort_inv AbortIndex st'"
  "Next n st = Inr st' \<Longrightarrow> abort_inv AbortIndex st \<Longrightarrow>
     handlers (fst st') = handlers (fst st) \<and> abort_inv (AbortIndex + 1) st'"
  "loop n st = Inr st' \<Longrightarrow> abort_inv (AbortIndex + 1) st \<Longrightarrow>
     handlers (fst st') = handlers (fst st) \<and> abort_inv (AbortIndex + 1) st'"
proof (induction n pos as st and n st and n st arbitrary: st' and st' and st' rule: run_Next_loop.induct)
  case (1 n pos st)
  then show ?case by simp
next
  case (2 n pos as st)
  from "2.prems"(1) obtain st1 where a: "Next n st = Inr st1" and b: "run n pos as st1 = Inr st'"
    by (auto split: sum.splits)
  from "2.IH"(1)[OF a "2.prems"(2)] have c: "handlers (fst st1) = handlers (fst st)" "abort_inv AbortIndex st1"
    by (auto intro: abort_inv_mono)
  from "2.IH"(2)[OF a b c(2)] c(1) show ?case by simp
next
  case (3 n pos as c tr)
  from "3.prems" have a: "run n pos as (Abort c, tr @ [Aborted pos]) = Inr st'" by simp
  have b: "abort_inv AbortIndex (Abort c, tr @ [Aborted pos])"
    using "3.prems"(2) by (simp add: abort_inv_def Abort_def quiet_snoc aborted_snoc)
  from "3.IH"[OF a b] show ?case by (simp add: Abort_def)
next
  case (4 n pos f as c tr)
  from "4.prems"(1) obtain c1 where a: "on_writer (call_writer f) c = Inr c1"
    and b: "run n pos as (c1, tr) = Inr st'"
    by (auto split: sum.splits)
  note k = on_writer_keeps[OF a]
  have d: "abort_inv AbortIndex (c1, tr)" using "4.prems"(2) k by (simp add: abort_inv_def)
  from "4.IH"[OF a b d] k show ?case by simp
next
  case (5 st)
  then show ?case by simp
next
  case (6 n c tr)
  from "6.prems" have a: "loop n (c\<lparr>index := index c + 1\<rparr>, tr) = Inr st'" by simp
  have b: "abort_inv (AbortIndex + 1) (c\<lparr>index := index c + 1\<rparr>, tr)"
    using "6.prems"(2) by (simp add: abort_inv_def)
  from "6.IH"[OF a b] show ?case by simp
next
  case (7 st)
  then show ?case by simp
next
  case (8 n c tr)
  show ?case
  proof (cases "index c < int (length (handlers c))")
    case False
    with "8.prems" show ?thesis by simp
  next
    case True
    note lt = this
    show ?thesis
    proof (cases "index c < 0")
      case True
      with lt "8.prems" show ?thesis by simp
    next
      case False
      note nn = this
      let ?start = "(c, tr @ [Began (nat (index c))])"
      from "8.prems"(1) lt nn obtain c1 tr1 where
        a: "run n (nat (index c)) (handlers c ! nat (index c)) ?start = Inr (c1, tr1)"
        and b: "loop n (c1\<lparr>index := index c1 + 1\<rparr>, tr1) = Inr st'"
        by (auto split: sum.splits)
      have na: "\<not> aborted tr" using "8.prems"(2) lt by (auto simp: abort_inv_def)
      have d: "abort_inv AbortIndex ?start"
        using "8.prems"(2) na by (simp add: abort_inv_def quiet_snoc aborted_snoc)
      from "8.IH"(1)[OF lt nn a d] have e: "handlers c1 = handlers c" "abort_inv AbortIndex (c1, tr1)"
        by simp_all
      have f: "abort_inv (AbortIndex + 1) (c1\<lparr>index := index c1 + 1\<rparr>, tr1)"
        using e(2) by (simp add: abort_inv_def)
      from "8.IH"(2)[OF lt nn a refl b f] e(1) show ?thesis by simp
    qed
  qed
qed

lemma quiet_split: "quiet (pre @ Aborted i # post) \<Longrightarrow> filter began post = []"
proof (induction pre rule: quiet.induct)
  case 1 then show ?case by simp
next
  case (2 j es) then show ?case by simp
next
  case (3 j es) then show ?case by simp
qed
lemma fuel_mono:
  "run n pos as st = Inr r \<Longrightarrow> n \<le> m \<Longrightarrow> run m pos as st = Inr r"
  "Next n st = Inr r \<Longrightarrow> n \<le> m \<Longrightarrow> Next m st = Inr r"
  "loop n st = Inr r \<Longrightarrow> n \<le> m \<Longrightarrow> loop m st = Inr r"
proof (induction n pos as st and n st and n st arbitrary: r m and r m and r m rule: run_Next_loop.induct)
  case (1 n pos st)
  then show ?case by simp
next
  case (2 n pos as st)
  from "2.prems"(1) obtain st1 where a: "Next n st = Inr st1" and b: "run n pos as st1 = Inr r"
    by (auto split: sum.splits)
  have a': "Next m st = Inr st1" by (rule "2.IH"(1)[OF a "2.prems"(2)])
  have b': "run m pos as st1 = Inr r" by (rule "2.IH"(2)[OF a b "2.prems"(2)])
  show ?case by (simp add: a' b')
next
  case (3 n pos as c tr)
  from "3.prems"(1) have "run n pos as (Abort c, tr @ [Aborted pos]) = Inr r" by simp
  from "3.IH"[OF this "3.prems"(2)] show ?case by simp
next
  case (4 n pos f as c tr)
  from "4.prems"(1) obtain c1 where a: "on_writer (call_writer f) c = Inr c1"
    and b: "run n pos as (c1, tr) = Inr r"
    by (auto split: sum.splits)
  have b': "run m pos as (c1, tr) = Inr r" by (rule "4.IH"[OF a b "4.prems"(2)])
  show ?case by (simp add: a b')
next
  case (5 st)
  then show ?case by simp
next
  case (6 n c tr)
  from "6.prems"(2) obtain m' where m: "m = Suc m'" "n \<le> m'" by (cases m) auto
  from "6.prems"(1) have "loop n (c\<lparr>index := index c + 1\<rparr>, tr) = Inr r" by simp
  then have "loop m' (c\<lparr>index := index c + 1\<rparr>, tr) = Inr r" by (rule "6.IH"[OF _ m(2)])
  then show ?case by (simp add: m(1))
next
  case (7 st)
  then show ?case by simp
next
  case (8 n c tr)
  from "8.prems"(2) obtain m' where m: "m = Suc m'" "n \<le> m'" by (cases m) auto
  show ?case
  proof (cases "index c < int (length (handlers c))")
    case False
    with "8.prems"(1) have "r = (c, tr)" by simp
    with False m(1) show ?thesis by simp
  next
    case True
    note lt = this
    show ?thesis
    proof (cases "index c < 0")
      case True
      with lt "8.prems" show ?thesis by simp
    next
      case False
      note nn = this
      from "8.prems"(1) lt nn obtain c1 tr1 where
        a: "run n (nat (index c)) (handlers c ! nat (index c)) (c, tr @ [Began (nat (index c))]) = Inr (c1, tr1)"
        and b: "loop n (c1\<lparr>index := index c1 + 1\<rparr>, tr1) = Inr r"
        by (auto split: sum.splits)
      have a': "run m' (nat (index c)) (handlers c ! nat (index c)) (c, tr @ [Began (nat (index c))]) = Inr (c1, tr1)"
        by (rule "8.IH"(1)[OF lt nn a m(2)])
      have b': "loop m' (c1\<lparr>index := index c1 + 1\<rparr>, tr1) = Inr r"
        by (rule "8.IH"(2)[OF lt nn a refl b m(2)])
      show ?thesis by (simp add: m(1) lt nn a' b')
    qed
  qed
qed


lemma call_writer_ok:
  "ResponseWriter rw \<noteq> None \<Longrightarrow> \<exists>rw'. call_writer f rw = Inr rw' \<and> ResponseWriter rw' \<noteq> None"
  by (cases f)
    (auto simp: WriteHeader_def WriteHeaderNow_def Write_def HeaderSet_def Written_def
      split: option.splits)

lemma on_writer_ok:
  assumes "chain_ready c"
  shows "\<exists>c'. on_writer (call_writer f) c = Inr c' \<and> chain_ready c' \<and>
           handlers c' = handlers c \<and> index c' = index c"
proof -
  from assms have w: "Writer c = OwnWritermem" and r: "ResponseWriter (writermem c) \<noteq> None"
    by (simp_all add: chain_ready_def)
  from call_writer_ok[OF r] obtain rw' where
    a: "call_writer f (writermem c) = Inr rw'" and b: "ResponseWriter rw' \<noteq> None"
    by blast
  have "on_writer (call_writer f) c = Inr (c\<lparr>writermem := rw'\<rparr>)"
    by (simp add: on_writer_def w a)
  moreover have "chain_ready (c\<lparr>writermem := rw'\<rparr>)"
    using assms b by (simp add: chain_ready_def)
  ultimately show ?thesis by simp
qed

lemma loop_total_aux:
  assumes H: "\<And>c tr pos as. chain_ready c \<Longrightarrow> remaining c < k \<Longrightarrow>
      \<exists>n c' tr'. run n pos as (c, tr) = Inr (c', tr') \<and> chain_ready c' \<and>
        handlers c' = handlers c \<and> remaining c' \<le> remaining c"
  shows "chain_ready c \<Longrightarrow> 0 \<le> index c \<Longrightarrow>
     (index c < int (length (handlers c)) \<Longrightarrow> remaining c < k) \<Longrightarrow>
     nat (int (length (handlers c)) - index c) \<le> j \<Longrightarrow>
     \<exists>m c' tr'. loop m (c, tr) = Inr (c', tr') \<and> chain_ready c' \<and>
        handlers c' = handlers c \<and> int (length (handlers c')) \<le> index c'"
proof (induction j arbitrary: c tr)
  case 0
  then have "\<not> index c < int (length (handlers c))" by simp
  then have ex: "loop (Suc 0) (c, tr) = Inr (c, tr)" and ge: "int (length (handlers c)) \<le> index c"
    by simp_all
  with "0.prems"(1) show ?case by blast
next
  case (Suc j)
  show ?case
  proof (cases "index c < int (length (handlers c))")
    case False
    then have ex: "loop (Suc 0) (c, tr) = Inr (c, tr)" and ge: "int (length (handlers c)) \<le> index c"
      by simp_all
    with Suc.prems(1) show ?thesis by blast
  next
    case True
    note lt = this
    from Suc.prems(2) have nn: "\<not> index c < 0" by simp
    from H[OF Suc.prems(1) Suc.prems(3)[OF lt]] obtain n1 c1 tr1 where
      a: "run n1 (nat (index c)) (handlers c ! nat (index c)) (c, tr @ [Began (nat (index c))]) = Inr (c1, tr1)"
      and r1: "chain_ready c1" and h1: "handlers c1 = handlers c" and le: "remaining c1 \<le> remaining c"
      by blast
    let ?c2 = "c1\<lparr>index := index c1 + 1\<rparr>"
    from le lt have ge: "index c \<le> index c1" by (simp add: remaining_def h1)
    have r2: "chain_ready ?c2" using r1 by (simp add: chain_ready_def)
    have i2: "0 \<le> index ?c2" using ge Suc.prems(2) by simp
    have k2: "index ?c2 < int (length (handlers ?c2)) \<Longrightarrow> remaining ?c2 < k"
      using Suc.prems(3)[OF lt] ge lt by (simp add: remaining_def h1)
    have j2: "nat (int (length (handlers ?c2)) - index ?c2) \<le> j"
      using Suc.prems(4) ge by (simp add: h1)
    from Suc.IH[OF r2 i2 k2 j2] obtain m2 c' tr' where
      b: "loop m2 (?c2, tr1) = Inr (c', tr')" and r': "chain_ready c'"
      and h': "handlers c' = handlers ?c2" and e': "int (length (handlers c')) \<le> index c'"
      by blast
    let ?N = "max n1 m2"
    have a': "run ?N (nat (index c)) (handlers c ! nat (index c)) (c, tr @ [Began (nat (index c))]) = Inr (c1, tr1)"
      by (rule fuel_mono(1)[OF a]) simp
    have b': "loop ?N (?c2, tr1) = Inr (c', tr')"
      by (rule fuel_mono(3)[OF b]) simp
    have fin: "loop (Suc ?N) (c, tr) = Inr (c', tr')"
      by (simp add: lt nn a' b')
    have "handlers c' = handlers c" using h' h1 by simp
    with fin r' e' show ?thesis by blast
  qed
qed

lemma run_total_aux:
  "chain_ready c \<Longrightarrow> remaining c \<le> k \<Longrightarrow>
     \<exists>n c' tr'. run n pos as (c, tr) = Inr (c', tr') \<and> chain_ready c' \<and>
        handlers c' = handlers c \<and> remaining c' \<le> remaining c"
proof (induction k arbitrary: c tr pos as rule: less_induct)
  case (less k)
  have H: "\<And>c tr pos as. chain_ready c \<Longrightarrow> remaining c < k \<Longrightarrow>
      \<exists>n c' tr'. run n pos as (c, tr) = Inr (c', tr') \<and> chain_ready c' \<and>
        handlers c' = handlers c \<and> remaining c' \<le> remaining c"
    using less.IH by blast
  from less.prems show ?case
  proof (induction as arbitrary: c tr)
    case Nil
    have "run 0 pos [] (c, tr) = Inr (c, tr)" by simp
    with Nil show ?case by blast
  next
    case (Cons a as)
    show ?case
    proof (cases a)
      case CallNext
      let ?c1 = "c\<lparr>index := index c + 1\<rparr>"
      have r1: "chain_ready ?c1" using Cons.prems(1) by (simp add: chain_ready_def)
      have i1: "0 \<le> index ?c1" using Cons.prems(1) by (simp add: chain_ready_def)
      have k1: "index ?c1 < int (length (handlers ?c1)) \<Longrightarrow> remaining ?c1 < k"
        using Cons.prems(2) by (simp add: remaining_def)
      from loop_total_aux[OF H r1 i1 k1 order_refl] obtain m c2 tr2 where
        a: "loop m (?c1, tr) = Inr (c2, tr2)" and r2: "chain_ready c2"
        and h2: "handlers c2 = handlers ?c1" and e2: "int (length (handlers c2)) \<le> index c2"
        by blast
      have z2: "remaining c2 = 0" using e2 by (simp add: remaining_def)
      then have le2: "remaining c2 \<le> k" by simp
      from Cons.IH[OF r2 le2] obtain n3 c3 tr3 where
        b: "run n3 pos as (c2, tr2) = Inr (c3, tr3)" and r3: "chain_ready c3"
        and h3: "handlers c3 = handlers c2" and le3: "remaining c3 \<le> remaining c2"
        by blast
      let ?N = "max (Suc m) n3"
      have "Next (Suc m) (c, tr) = Inr (c2, tr2)" using a by simp
      then have a': "Next ?N (c, tr) = Inr (c2, tr2)" by (rule fuel_mono(2)) simp
      have b': "run ?N pos as (c2, tr2) = Inr (c3, tr3)" by (rule fuel_mono(1)[OF b]) simp
      have "run ?N pos (a # as) (c, tr) = Inr (c3, tr3)"
        by (simp add: CallNext a' b')
      moreover have "remaining c3 \<le> remaining c" using le3 z2 by simp
      moreover have "handlers c3 = handlers c" using h3 h2 by simp
      ultimately show ?thesis using r3 by blast
    next
      case CallAbort
      have r1: "chain_ready (Abort c)" using Cons.prems(1)
        by (simp add: chain_ready_def Abort_def AbortIndex_def MaxInt8_def)
      have z1: "remaining (Abort c) = 0" using Cons.prems(1)
        by (simp add: chain_ready_def Abort_def remaining_def)
      then have le1: "remaining (Abort c) \<le> k" by simp
      from Cons.IH[OF r1 le1] obtain n3 c3 tr3 where
        b: "run n3 pos as (Abort c, tr @ [Aborted pos]) = Inr (c3, tr3)" and r3: "chain_ready c3"
        and h3: "handlers c3 = handlers (Abort c)" and le3: "remaining c3 \<le> remaining (Abort c)"
        by blast
      have "run n3 pos (a # as) (c, tr) = Inr (c3, tr3)" by (simp add: CallAbort b)
      moreover have "remaining c3 \<le> remaining c" using le3 z1 by simp
      moreover have "handlers c3 = handlers c" using h3 by (simp add: Abort_def)
      ultimately show ?thesis using r3 by blast
    next
      case (OnWriter f)
      from on_writer_ok[OF Cons.prems(1)] obtain c1 where
        a: "on_writer (call_writer f) c = Inr c1" and r1: "chain_ready c1"
        and h1: "handlers c1 = handlers c" and i1: "index c1 = index c"
        by blast
      have e1: "remaining c1 = remaining c" by (simp add: remaining_def h1 i1)
      then have le1: "remaining c1 \<le> k" using Cons.prems(2) by simp
      from Cons.IH[OF r1 le1] obtain n3 c3 tr3 where
        b: "run n3 pos as (c1, tr) = Inr (c3, tr3)" and r3: "chain_ready c3"
        and h3: "handlers c3 = handlers c1" and le3: "remaining c3 \<le> remaining c1"
        by blast
      have "run n3 pos (a # as) (c, tr) = Inr (c3, tr3)" by (simp add: OnWriter a b)
      moreover have "remaining c3 \<le> remaining c" using le3 e1 by simp
      moreover have "handlers c3 = handlers c" using h3 h1 by simp
      ultimately show ?thesis using r3 by blast
    qed
  qed
qed

lemma Next_total:
  assumes "chain_ready c"
  shows "\<exists>n c' tr'. Next n (c, tr) = Inr (c', tr') \<and> chain_ready c' \<and> handlers c' = handlers c"
proof -
  from run_total_aux[OF assms order_refl, of 0 "[CallNext]" tr] obtain n c' tr' where
    a: "run n 0 [CallNext] (c, tr) = Inr (c', tr')" and r: "chain_ready c'"
    and h: "handlers c' = handlers c"
    by blast
  from a have "Next n (c, tr) = Inr (c', tr')" by (simp split: sum.splits)
  with r h show ?thesis by blast
qed
text \<open>
  Claim C3, as the code has it.  The sentinel is \<open>AbortIndex = 63\<close>, and \<^verbatim>\<open>Next\<close> goes on
  to the position after the cursor, so an abort ends the chain only when the chain has
  at most \<open>AbortIndex + 1 = 64\<close> handlers.  For such a chain, on every run of \<^verbatim>\<open>Next\<close>
  that returns: once the handler at a position \<open>i\<close> has called abort, no handler at any
  position (in particular none at a position greater than \<open>i\<close>) begins executing, however
  often abort is called again.  By \<open>Next_total\<close> every run on a ready Context returns,
  given enough fuel.
\<close>

theorem abort_stops_short_chain:
  assumes "int (length (handlers c)) \<le> AbortIndex + 1"
    and "Next n (c, []) = Inr (c', pre @ Aborted i # post)"
  shows "\<forall>j. Began j \<notin> set post"
proof -
  have "abort_inv AbortIndex (c, [])"
    using assms(1) by (simp add: abort_inv_def aborted_def)
  from exec_inv(2)[OF assms(2) this] have "quiet (pre @ Aborted i # post)"
    by (simp add: abort_inv_def)
  then have "filter began post = []" by (rule quiet_split)
  then show ?thesis by (auto simp: filter_empty_conv)
qed

theorem abort_stops_short_chain_witness:
  "int (length (handlers
      \<lparr>Engine_ref = None, Writer = OwnWritermem, writermem = zero_responseWriter,
       Request_ref = None, handlers = [[CallNext], [CallAbort, CallAbort, CallNext], []],
       index = - 1\<rparr>)) \<le> AbortIndex + 1 \<and>
   Next 10
     (\<lparr>Engine_ref = None, Writer = OwnWritermem, writermem = zero_responseWriter,
       Request_ref = None, handlers = [[CallNext], [CallAbort, CallAbort, CallNext], []],
       index = - 1\<rparr>, []) =
   Inr (\<lparr>Engine_ref = None, Writer = OwnWritermem, writermem = zero_responseWriter,
         Request_ref = None, handlers = [[CallNext], [CallAbort, CallAbort, CallNext], []],
         index = 66\<rparr>, [Began 0, Began 1] @ Aborted 1 # [Aborted 1]) \<and>
   (\<forall>j. Began j \<notin> set [Aborted 1])"
  using abort_stops_short_chain [of
      "\<lparr>Engine_ref = None, Writer = OwnWritermem, writermem = zero_responseWriter,
       Request_ref = None, handlers = [[CallNext], [CallAbort, CallAbort, CallNext], []],
       index = - 1\<rparr>" 10
      "\<lparr>Engine_ref = None, Writer = OwnWritermem, writermem = zero_responseWriter,
       Request_ref = None, handlers = [[CallNext], [CallAbort, CallAbort, CallNext], []],
       index = 66\<rparr>" "[Began 0, Began 1]" 1 "[Aborted 1]"]
  by (simp add: AbortIndex_def MaxInt8_def Abort_def numeral_nat)

text \<open>
  Claim C3, as stated, fails for a longer chain: with 65 handlers of which the first
  aborts, the cursor goes from the sentinel 63 to 64 and the handler at position 64
  begins.
\<close>

theorem abort_does_not_stop_long_chain:
  "map_sum id snd
     (Next 5
        (\<lparr>Engine_ref = None, Writer = OwnWritermem, writermem = zero_responseWriter,
          Request_ref = None, handlers = [CallAbort] # replicate 64 [], index = - 1\<rparr>, [])) =
   Inr [Began 0, Aborted 0, Began 64]"
  by (simp add: AbortIndex_def MaxInt8_def Abort_def numeral_nat nth_Cons')

section \<open>The fallback dispatchers\<close>

lemma createContext_fields:
  assumes "createContext pick e w req hs = (c, e1)"
  shows "writermem c = \<lparr>ResponseWriter = Some w, status = 200, flushed = False\<rparr>"
    and "handlers c = hs" and "index c = - 1" and "e1 = snd (acquire pick e)"
    and "Writer c = Writer (fst (pool_Get pick e))"
  using assms
  by (auto simp: createContext_def acquire_def reset_def split: prod.splits)

lemma pool_Get_Writer:
  assumes "list_all (\<lambda>c. Writer c = OwnWritermem) (pool e)"
  shows "Writer (fst (pool_Get pick e)) = OwnWritermem"
proof (cases pick)
  case None
  then show ?thesis by (simp add: pool_Get_def pool_New_def)
next
  case (Some k)
  show ?thesis
  proof (cases "k < length (pool e)")
    case True
    with assms have "Writer (pool e ! k) = OwnWritermem" by (simp add: list_all_length)
    with True Some show ?thesis by (simp add: pool_Get_def)
  next
    case False
    with Some show ?thesis by (simp add: pool_Get_def pool_New_def)
  qed
qed

lemma acquire_pool_Default:
  "Default404Body (snd (acquire pick e)) = Default404Body e"
  "Default405Body (snd (acquire pick e)) = Default405Body e"
  by (auto simp: acquire_def pool_Get_def split: prod.splits option.splits)

lemma finish_step:
  assumes "writer_of c2 = Inr rw"
    and "(if \<not> Written rw then
            (if Status rw = code then
               (case Data (- 1) MIMEPlain body c2 of
                  Inl x \<Rightarrow> Inl x
                | Inr c3 \<Rightarrow> Inr (c3, reuseContext c3 e1))
             else
               (case on_writer WriteHeaderNow c2 of
                  Inl x \<Rightarrow> Inl x
                | Inr c3 \<Rightarrow> Inr (c3, reuseContext c3 e1)))
          else Inr (c2, reuseContext c2 e1)) = Inr (c3', e3)"
  shows "finished_as code body c2 c3' \<and> e3 = reuseContext c3' e1"
proof -
  from assms(1) have w: "Writer c2 = OwnWritermem" and rw: "rw = writermem c2"
    by (auto simp: writer_of_def split: writer_ref.splits)
  show ?thesis
  proof (cases "Written rw")
    case True
    with assms(2) rw show ?thesis by (auto simp: finished_as_def)
  next
    case False
    note nw = this
    show ?thesis
    proof (cases "ResponseWriter rw")
      case None
      with assms(2) nw w rw show ?thesis
        by (simp add: Data_def on_writer_def HeaderSet_def MIMEPlain_def WriteHeaderNow_def
            split: if_splits)
    next
      case (Some r)
      show ?thesis
      proof (cases "Status rw = code")
        case True
        with assms(2) nw w rw Some show ?thesis
          by (auto simp: finished_as_def Data_def on_writer_def HeaderSet_def MIMEPlain_def
              Write_def WriteHeaderNow_def Written_def Status_def)
      next
        case False
        with assms(2) nw w rw Some show ?thesis
          by (auto simp: finished_as_def on_writer_def WriteHeaderNow_def Written_def Status_def)
      qed
    qed
  qed
qed

lemma handle404_protocol:
  assumes "handle404 n pick e w req = Inr (c3, e3)"
  shows "\<exists>c1 c2 tr. preset_for 404 (allNoRouteNoMethod e) w c1 \<and>
           Next n (c1, []) = Inr (c2, tr) \<and>
           finished_as 404 (Default404Body e) c2 c3 \<and>
           e3 = reuseContext c3 (snd (acquire pick e))"
proof -
  obtain c e1 where cc: "createContext pick e w req (allNoRouteNoMethod e) = (c, e1)"
    by (cases "createContext pick e w req (allNoRouteNoMethod e)")
  note f = createContext_fields[OF cc]
  from assms cc obtain c1 where a: "on_writer (WriteHeader 404) c = Inr c1"
    by (auto simp: handle404_def split: sum.splits)
  from a f have p: "preset_for 404 (allNoRouteNoMethod e) w c1"
    by (auto simp: preset_for_def on_writer_def WriteHeader_def Status_def Written_def
        split: writer_ref.splits)
  from assms cc a obtain c2 tr where b: "Next n (c1, []) = Inr (c2, tr)"
    by (auto simp: handle404_def split: sum.splits)
  from assms cc a b obtain rw where d: "writer_of c2 = Inr rw"
    by (auto simp: handle404_def split: sum.splits)
  from assms have "finished_as 404 (Default404Body e1) c2 c3 \<and> e3 = reuseContext c3 e1"
    by (intro finish_step[OF d]) (simp add: handle404_def cc a b d)
  with f(4) p b show ?thesis by (auto simp: acquire_pool_Default)
qed

lemma handle405_protocol:
  assumes "handle405 n pick e w req = Inr (c3, e3)"
  shows "\<exists>c1 c2 tr. preset_for 405 (allNoRouteNoMethod e) w c1 \<and>
           Next n (c1, []) = Inr (c2, tr) \<and>
           finished_as 405 (Default405Body e) c2 c3 \<and>
           e3 = reuseContext c3 (snd (acquire pick e))"
proof -
  obtain c e1 where cc: "createContext pick e w req (allNoRouteNoMethod e) = (c, e1)"
    by (cases "createContext pick e w req (allNoRouteNoMethod e)")
  note f = createContext_fields[OF cc]
  from assms cc obtain c1 where a: "on_writer (WriteHeader 405) c = Inr c1"
    by (auto simp: handle405_def split: sum.splits)
  from a f have p: "preset_for 405 (allNoRouteNoMethod e) w c1"
    by (auto simp: preset_for_def on_writer_def WriteHeader_def Status_def Written_def
        split: writer_ref.splits)
  from assms cc a obtain c2 tr where b: "Next n (c1, []) = Inr (c2, tr)"
    by (auto simp: handle405_def split: sum.splits)
  from assms cc a b obtain rw where d: "writer_of c2 = Inr rw"
    by (auto simp: handle405_def split: sum.splits)
  from assms have "finished_as 405 (Default405Body e1) c2 c3 \<and> e3 = reuseContext c3 e1"
    by (intro finish_step[OF d]) (simp add: handle405_def cc a b d)
  with f(4) p b show ?thesis by (auto simp: acquire_pool_Default)
qed

lemma Data_returns:
  assumes "Writer c = OwnWritermem" and "ResponseWriter (writermem c) \<noteq> None"
  shows "\<exists>c'. Data code ct body c = Inr c'"
  using assms
  by (auto simp: Data_def on_writer_def HeaderSet_def WriteHeader_def Write_def
      WriteHeaderNow_def split: option.splits)

lemma WriteHeaderNow_returns:
  assumes "Writer c = OwnWritermem" and "ResponseWriter (writermem c) \<noteq> None"
  shows "\<exists>c'. on_writer WriteHeaderNow c = Inr c'"
  using assms
  by (auto simp: on_writer_def WriteHeaderNow_def split: option.splits)

lemma preset_ready:
  assumes "pool_ready e" and "createContext pick e w req (allNoRouteNoMethod e) = (c, e1)"
  shows "\<exists>c1. on_writer (WriteHeader code) c = Inr c1 \<and> chain_ready c1"
proof -
  note f = createContext_fields[OF assms(2)]
  from assms(1) have w: "Writer c = OwnWritermem"
    by (simp add: f(5) pool_Get_Writer pool_ready_def)
  have "on_writer (WriteHeader code) c = Inr (c\<lparr>writermem := (writermem c)\<lparr>status := code\<rparr>\<rparr>)"
    by (simp add: on_writer_def w WriteHeader_def)
  moreover have "chain_ready (c\<lparr>writermem := (writermem c)\<lparr>status := code\<rparr>\<rparr>)"
    using assms(1) w f by (simp add: chain_ready_def pool_ready_def)
  ultimately show ?thesis by blast
qed

lemma handle404_returns:
  assumes "pool_ready e"
  shows "\<exists>m r. handle404 m pick e w req = Inr r"
proof -
  obtain c e1 where cc: "createContext pick e w req (allNoRouteNoMethod e) = (c, e1)"
    by (cases "createContext pick e w req (allNoRouteNoMethod e)")
  from preset_ready[OF assms cc] obtain c1 where
    a: "on_writer (WriteHeader 404) c = Inr c1" and r1: "chain_ready c1"
    by blast
  from Next_total[OF r1] obtain m c2 tr where
    b: "Next m (c1, []) = Inr (c2, tr)" and r2: "chain_ready c2"
    by blast
  from r2 have w2: "Writer c2 = OwnWritermem" and u2: "ResponseWriter (writermem c2) \<noteq> None"
    by (simp_all add: chain_ready_def)
  have d: "writer_of c2 = Inr (writermem c2)" by (simp add: writer_of_def w2)
  from Data_returns[OF w2 u2] obtain c3 where
    x: "Data (- 1) MIMEPlain (Default404Body e1) c2 = Inr c3"
    by blast
  from WriteHeaderNow_returns[OF w2 u2] obtain c4 where
    y: "on_writer WriteHeaderNow c2 = Inr c4"
    by blast
  have "\<exists>r. handle404 m pick e w req = Inr r"
    by (simp add: handle404_def cc a b d x y)
  then show ?thesis by blast
qed

lemma handle405_returns:
  assumes "pool_ready e"
  shows "\<exists>m r. handle405 m pick e w req = Inr r"
proof -
  obtain c e1 where cc: "createContext pick e w req (allNoRouteNoMethod e) = (c, e1)"
    by (cases "createContext pick e w req (allNoRouteNoMethod e)")
  from preset_ready[OF assms cc] obtain c1 where
    a: "on_writer (WriteHeader 405) c = Inr c1" and r1: "chain_ready c1"
    by blast
  from Next_total[OF r1] obtain m c2 tr where
    b: "Next m (c1, []) = Inr (c2, tr)" and r2: "chain_ready c2"
    by blast
  from r2 have w2: "Writer c2 = OwnWritermem" and u2: "ResponseWriter (writermem c2) \<noteq> None"
    by (simp_all add: chain_ready_def)
  have d: "writer_of c2 = Inr (writermem c2)" by (simp add: writer_of_def w2)
  from Data_returns[OF w2 u2] obtain c3 where
    x: "Data (- 1) MIMEPlain (Default405Body e1) c2 = Inr c3"
    by blast
  from WriteHeaderNow_returns[OF w2 u2] obtain c4 where
    y: "on_writer WriteHeaderNow c2 = Inr c4"
    by blast
  have "\<exists>r. handle405 m pick e w req = Inr r"
    by (simp add: handle405_def cc a b d x y)
  then show ?thesis by blast
qed

text \<open>
  Claim C2.  \<^verbatim>\<open>handle404\<close> hands the chain a Context whose status is pre-set to 404
  and on which nothing is written; when the chain has run, a response on which nothing
  was written gets the configured \<^verbatim>\<open>Default404Body\<close> with content type text/plain if the
  status is still 404, and only its headers flushed, with no body, if a handler changed
  the status; a response that was written is left as it is.  The Context then goes back
  to the pool.  \<^verbatim>\<open>handle405\<close> does the same with 405 and \<^verbatim>\<open>Default405Body\<close>.  Both
  return for every engine whose fallback chain has at most \<open>AbortIndex + 1\<close> handlers,
  given enough fuel.
\<close>

theorem fallback_protocol:
  "(handle404 n pick e w req = Inr (c3, e3) \<longrightarrow>
      (\<exists>c1 c2 tr. preset_for 404 (allNoRouteNoMethod e) w c1 \<and>
         Next n (c1, []) = Inr (c2, tr) \<and>
         finished_as 404 (Default404Body e) c2 c3 \<and>
         e3 = reuseContext c3 (snd (acquire pick e)))) \<and>
   (handle405 n pick e w req = Inr (c3, e3) \<longrightarrow>
      (\<exists>c1 c2 tr. preset_for 405 (allNoRouteNoMethod e) w c1 \<and>
         Next n (c1, []) = Inr (c2, tr) \<and>
         finished_as 405 (Default405Body e) c2 c3 \<and>
         e3 = reuseContext c3 (snd (acquire pick e)))) \<and>
   (pool_ready e \<longrightarrow>
      (\<exists>m r. handle404 m pick e w req = Inr r) \<and> (\<exists>m r. handle405 m pick e w req = Inr r))"
  using handle404_protocol [of n pick e w req c3 e3] handle405_protocol [of n pick e w req c3 e3]
    handle404_returns [of e pick w req] handle405_returns [of e pick w req]
  by blast

theorem fallback_protocol_witness:
  "(\<exists>c3 e3.
      handle404 5 None (NoRoute [[OnWriter (CWriteHeader 403)]] (New 0))
        \<lparr>hdr = [], sent_status = None, sent_body = []\<rparr> \<lparr>form = []\<rparr> = Inr (c3, e3) \<and>
      (\<exists>c1 c2 tr.
         preset_for 404 [[OnWriter (CWriteHeader 403)]]
           \<lparr>hdr = [], sent_status = None, sent_body = []\<rparr> c1 \<and>
         Next 5 (c1, []) = Inr (c2, tr) \<and>
         finished_as 404 ''404 page not found'' c2 c3) \<and>
      ResponseWriter (writermem c3) =
        Some \<lparr>hdr = [], sent_status = Some 403, sent_body = []\<rparr>) \<and>
   (\<exists>c3 e3.
      handle405 5 None (New 0)
        \<lparr>hdr = [], sent_status = None, sent_body = []\<rparr> \<lparr>form = []\<rparr> = Inr (c3, e3) \<and>
      (\<exists>c1 c2 tr.
         preset_for 405 [] \<lparr>hdr = [], sent_status = None, sent_body = []\<rparr> c1 \<and>
         Next 5 (c1, []) = Inr (c2, tr) \<and>
         finished_as 405 ''405 method not allowed'' c2 c3) \<and>
      ResponseWriter (writermem c3) =
        Some \<lparr>hdr = [(''Content-Type'', ''text/plain'')], sent_status = Some 405,
              sent_body = [Bytes ''405 method not allowed'']\<rparr>) \<and>
   pool_ready (New 0) \<and>
   (\<exists>m r. handle404 m None (New 0)
        \<lparr>hdr = [], sent_status = None, sent_body = []\<rparr> \<lparr>form = []\<rparr> = Inr r)"
proof -
  let ?W = "\<lparr>hdr = [], sent_status = None, sent_body = []\<rparr>"
  let ?R = "\<lparr>form = []\<rparr>"
  let ?E = "NoRoute [[OnWriter (CWriteHeader 403)]] (New 0)"
  let ?C = "\<lparr>Engine_ref = Some 0, Writer = OwnWritermem,
     writermem = \<lparr>ResponseWriter = Some \<lparr>hdr = [], sent_status = Some 403, sent_body = []\<rparr>,
       status = 403, flushed = True\<rparr>,
     Request_ref = Some ?R, handlers = [[OnWriter (CWriteHeader 403)]], index = 1\<rparr>"
  let ?D = "\<lparr>Engine_ref = Some 0, Writer = OwnWritermem,
     writermem = \<lparr>ResponseWriter = Some \<lparr>hdr = [(''Content-Type'', ''text/plain'')],
         sent_status = Some 405, sent_body = [Bytes ''405 method not allowed'']\<rparr>,
       status = 405, flushed = True\<rparr>,
     Request_ref = Some ?R, handlers = [], index = 0\<rparr>"
  note defs = handle404_def handle405_def NoRoute_def New_def rebuild404Handlers_def
    combineHandlers_def createContext_def acquire_def pool_Get_def pool_New_def
    zero_Context_def zero_responseWriter_def reset_def on_writer_def WriteHeader_def
    writer_of_def Written_def Status_def Write_def WriteHeaderNow_def reuseContext_def
    pool_Put_def Data_def HeaderSet_def MIMEPlain_def numeral_nat
  have a: "handle404 5 None ?E ?W ?R = Inr (?C, reuseContext ?C (snd (acquire None ?E)))"
    by (simp add: defs)
  have a': "allNoRouteNoMethod ?E = [[OnWriter (CWriteHeader 403)]]"
    "Default404Body ?E = ''404 page not found''"
    by (simp_all add: defs)
  have b: "handle405 5 None (New 0) ?W ?R = Inr (?D, reuseContext ?D (snd (acquire None (New 0))))"
    by (simp add: defs)
  have b': "allNoRouteNoMethod (New 0) = []" "Default405Body (New 0) = ''405 method not allowed''"
    by (simp_all add: defs)
  have p: "pool_ready (New 0)"
    by (simp add: pool_ready_def New_def AbortIndex_def MaxInt8_def)
  from fallback_protocol [of 5 None ?E ?W ?R ?C "reuseContext ?C (snd (acquire None ?E))"] a
  have 1: "\<exists>c1 c2 tr. preset_for 404 [[OnWriter (CWriteHeader 403)]] ?W c1 \<and>
      Next 5 (c1, []) = Inr (c2, tr) \<and> finished_as 404 ''404 page not found'' c2 ?C"
    unfolding a' by blast
  from fallback_protocol [of 5 None "New 0" ?W ?R ?D "reuseContext ?D (snd (acquire None (New 0)))"] b
  have 2: "\<exists>c1 c2 tr. preset_for 405 [] ?W c1 \<and>
      Next 5 (c1, []) = Inr (c2, tr) \<and> finished_as 405 ''405 method not allowed'' c2 ?D"
    unfolding b' by blast
  from fallback_protocol [of 5 None "New 0" ?W ?R ?D "reuseContext ?D (snd (acquire None (New 0)))"] p
  have 3: "\<exists>m r. handle404 m None (New 0) ?W ?R = Inr r"
    by blast
  have c: "ResponseWriter (writermem ?C) = Some \<lparr>hdr = [], sent_status = Some 403, sent_body = []\<rparr>"
    by simp
  have d: "ResponseWriter (writermem ?D) = Some \<lparr>hdr = [(''Content-Type'', ''text/plain'')],
      sent_status = Some 405, sent_body = [Bytes ''405 method not allowed'']\<rparr>"
    by simp
  from a 1 c have A: "\<exists>c3 e3. handle404 5 None ?E ?W ?R = Inr (c3, e3) \<and>
      (\<exists>c1 c2 tr. preset_for 404 [[OnWriter (CWriteHeader 403)]] ?W c1 \<and>
         Next 5 (c1, []) = Inr (c2, tr) \<and> finished_as 404 ''404 page not found'' c2 c3) \<and>
      ResponseWriter (writermem c3) = Some \<lparr>hdr = [], sent_status = Some 403, sent_body = []\<rparr>"
    by blast
  from b 2 d have B: "\<exists>c3 e3. handle405 5 None (New 0) ?W ?R = Inr (c3, e3) \<and>
      (\<exists>c1 c2 tr. preset_for 405 [] ?W c1 \<and>
         Next 5 (c1, []) = Inr (c2, tr) \<and> finished_as 405 ''405 method not allowed'' c2 c3) \<and>
      ResponseWriter (writermem c3) = Some \<lparr>hdr = [(''Content-Type'', ''text/plain'')],
        sent_status = Some 405, sent_body = [Bytes ''405 method not allowed'']\<rparr>"
    by blast
  from A B p 3 show ?thesis by blast
qed

section \<open>Registration of custom handlers\<close>

text \<open>
  Claim C10.  \<^verbatim>\<open>RigsterHttpHandler\<close> registers the handler under the method of the
  \<^verbatim>\<open>HandlerInfo\<close> only when that method is GET, DELETE, POST or PUT; for every other
  method string (PATCH, HEAD, the empty string, a lower-case "get", ...) the handler is
  registered as a GET route.  Nothing is rejected: the result is always the engine with
  one more route, whose chain is the global middleware followed by the handler.
\<close>

theorem RigsterHttpHandler_registers:
  "RigsterHttpHandler hi e =
     e\<lparr>router := router e @
        [(if Method hi \<in> {''GET'', ''DELETE'', ''POST'', ''PUT''} then Method hi else ''GET'',
          Path hi, Handlers e @ [Handler hi])]\<rparr>"
  by (simp add: RigsterHttpHandler_def GET_def DELETE_def POST_def PUT_def Handle_def
      combineHandlers_def)

theorem RigsterHttpHandler_registers_witness:
  "router (RigsterHttpHandler \<lparr>Method = ''PATCH'', Path = ''/p'', Handler = []\<rparr> (New 0)) =
     [(''GET'', ''/p'', [[]])] \<and>
   router (RigsterHttpHandler \<lparr>Method = ''HEAD'', Path = ''/h'', Handler = []\<rparr> (New 0)) =
     [(''GET'', ''/h'', [[]])] \<and>
   router (RigsterHttpHandler \<lparr>Method = [], Path = ''/e'', Handler = []\<rparr> (New 0)) =
     [(''GET'', ''/e'', [[]])] \<and>
   router (RigsterHttpHandler \<lparr>Method = ''DELETE'', Path = ''/d'', Handler = []\<rparr> (New 0)) =
     [(''DELETE'', ''/d'', [[]])]"
  using RigsterHttpHandler_registers [of "\<lparr>Method = ''PATCH'', Path = ''/p'', Handler = []\<rparr>" "New 0"]
    RigsterHttpHandler_registers [of "\<lparr>Method = ''HEAD'', Path = ''/h'', Handler = []\<rparr>" "New 0"]
    RigsterHttpHandler_registers [of "\<lparr>Method = [], Path = ''/e'', Handler = []\<rparr>" "New 0"]
    RigsterHttpHandler_registers [of "\<lparr>Method = ''DELETE'', Path = ''/d'', Handler = []\<rparr>" "New 0"]
  by (simp add: New_def)

section \<open>Rebuilding the fallback chain\<close>

lemma NoMethod_after_NoRoute:
  "allNoRouteNoMethod (NoMethod b (NoRoute a e)) = Handlers e @ b"
  by (simp add: NoMethod_def NoRoute_def rebuild404Handlers_def rebuild405Handlers_def
      combineHandlers_def)

lemma NoRoute_after_NoMethod:
  "allNoRouteNoMethod (NoRoute a (NoMethod b e)) = Handlers e @ a"
  by (simp add: NoMethod_def NoRoute_def rebuild404Handlers_def rebuild405Handlers_def
      combineHandlers_def)

lemma Use_rebuilds_from_noMethod:
  "allNoRouteNoMethod (Use ms e) = Handlers e @ ms @ noMethod e"
  by (simp add: Use_def RouterGroup_Use_def rebuild404Handlers_def rebuild405Handlers_def
      combineHandlers_def)

text \<open>
  Claim C4.  The claim asks for two independent chains: a no-route request runs the
  global middleware followed by the no-route handlers, a wrong-method request the global
  middleware followed by the no-method handlers.  The engine keeps the two handler lists
  apart (\<^verbatim>\<open>noRoute\<close>, \<^verbatim>\<open>noMethod\<close>) but both rebuild functions store the combined
  chain in the one field \<^verbatim>\<open>allNoRouteNoMethod\<close>, which both dispatchers read.  After
  \<^verbatim>\<open>NoRoute\<close> with a handler that writes "custom 404" followed by \<^verbatim>\<open>NoMethod\<close> with a
  handler that writes "custom 405", a no-route request is answered by the no-method
  handler.
\<close>

theorem handle404_runs_noMethod_chain:
  "map_sum id (\<lambda>(c, e). ResponseWriter (writermem c))
     (handle404 5 None
        (NoMethod [[OnWriter (CWrite ''custom 405'')]]
           (NoRoute [[OnWriter (CWrite ''custom 404'')]] (New 0)))
        \<lparr>hdr = [], sent_status = None, sent_body = []\<rparr> \<lparr>form = []\<rparr>) =
   Inr (Some \<lparr>hdr = [], sent_status = Some 404, sent_body = [Bytes ''custom 405'']\<rparr>)"
  by (simp add: handle404_def NoMethod_def NoRoute_def New_def rebuild404Handlers_def
      rebuild405Handlers_def combineHandlers_def createContext_def acquire_def pool_Get_def
      pool_New_def zero_Context_def zero_responseWriter_def reset_def on_writer_def
      WriteHeader_def writer_of_def Written_def Status_def Write_def WriteHeaderNow_def
      reuseContext_def pool_Put_def numeral_nat)

section \<open>The Context pool\<close>

lemma acquire_clean: "clean (fst (acquire pick e))"
  by (simp add: acquire_def clean_def Written_def split: prod.splits)

lemma run_pool_clean: "list_all clean (fst (run_pool ops e))"
proof (induction ops e rule: run_pool.induct)
  case (1 e)
  show ?case by simp
next
  case (2 pick ops e)
  obtain c e' where a: "acquire pick e = (c, e')" by (cases "acquire pick e")
  obtain cs e'' where b: "run_pool ops e' = (cs, e'')" by (cases "run_pool ops e'")
  from "2.IH"[OF a[symmetric]] b have "list_all clean cs" by simp
  moreover from acquire_clean[of pick e] a have "clean c" by simp
  ultimately show ?case by (simp add: a b)
next
  case (3 c ops e)
  then show ?case by simp
qed

lemma run_pool_length: "length (fst (run_pool ops e)) = length (filter is_Acquire ops)"
proof (induction ops e rule: run_pool.induct)
  case (1 e)
  show ?case by simp
next
  case (2 pick ops e)
  obtain c e' where a: "acquire pick e = (c, e')" by (cases "acquire pick e")
  obtain cs e'' where b: "run_pool ops e' = (cs, e'')" by (cases "run_pool ops e'")
  from "2.IH"[OF a[symmetric]] b show ?case by (simp add: a b)
next
  case (3 c ops e)
  then show ?case by simp
qed

lemma acquire_empty_pool:
  assumes "pool e = []"
  shows "acquire pick e =
    (\<lparr>Engine_ref = Some (self e), Writer = OwnWritermem,
      writermem = \<lparr>ResponseWriter = None, status = 200, flushed = False\<rparr>,
      Request_ref = None, handlers = [], index = - 1\<rparr>, e)"
  using assms
  by (simp add: acquire_def pool_Get_def pool_New_def zero_Context_def zero_responseWriter_def
      split: option.splits)

text \<open>
  Claim C9.  For every sequence of acquire and release operations on the pool of an
  engine, whatever the pool holds at the start, whatever state the released Contexts are
  in and whichever pooled item each acquisition picks: every acquired Context is in the
  clean state (cursor at the start, writer unflushed and unbound, chain unset), and
  every acquisition yields a Context.  On an empty pool the acquired Context is a new
  one, with its Engine reference set and its Writer pointing at its own writer storage.
\<close>

theorem pool_acquire_reset:
  "list_all clean (fst (run_pool ops e)) \<and>
   length (fst (run_pool ops e)) = length (filter is_Acquire ops) \<and>
   (pool e = [] \<longrightarrow>
      acquire pick e =
        (\<lparr>Engine_ref = Some (self e), Writer = OwnWritermem,
          writermem = \<lparr>ResponseWriter = None, status = 200, flushed = False\<rparr>,
          Request_ref = None, handlers = [], index = - 1\<rparr>, e))"
  using run_pool_clean [of ops e] run_pool_length [of ops e] acquire_empty_pool [of e pick]
  by blast

theorem pool_acquire_reset_witness:
  "pool (New 7) = [] \<and>
   fst (run_pool
     [Release \<lparr>Engine_ref = Some 7, Writer = OwnWritermem,
        writermem = \<lparr>ResponseWriter = Some \<lparr>hdr = [], sent_status = Some 200,
          sent_body = [Bytes ''old'']\<rparr>, status = 200, flushed = True\<rparr>,
        Request_ref = Some \<lparr>form = []\<rparr>, handlers = [[CallAbort]], index = 64\<rparr>,
      Acquire (Some 0), Acquire (Some 0)] (New 7)) =
     [\<lparr>Engine_ref = Some 7, Writer = OwnWritermem,
        writermem = \<lparr>ResponseWriter = None, status = 200, flushed = False\<rparr>,
        Request_ref = Some \<lparr>form = []\<rparr>, handlers = [], index = - 1\<rparr>,
      \<lparr>Engine_ref = Some 7, Writer = OwnWritermem,
        writermem = \<lparr>ResponseWriter = None, status = 200, flushed = False\<rparr>,
        Request_ref = None, handlers = [], index = - 1\<rparr>] \<and>
   list_all clean (fst (run_pool
     [Release \<lparr>Engine_ref = Some 7, Writer = OwnWritermem,
        writermem = \<lparr>ResponseWriter = Some \<lparr>hdr = [], sent_status = Some 200,
          sent_body = [Bytes ''old'']\<rparr>, status = 200, flushed = True\<rparr>,
        Request_ref = Some \<lparr>form = []\<rparr>, handlers = [[CallAbort]], index = 64\<rparr>,
      Acquire (Some 0), Acquire (Some 0)] (New 7))) \<and>
   Engine_ref (fst (acquire None (New 7))) = Some 7 \<and>
   Writer (fst (acquire None (New 7))) = OwnWritermem"
proof -
  let ?ops = "[Release \<lparr>Engine_ref = Some 7, Writer = OwnWritermem,
        writermem = \<lparr>ResponseWriter = Some \<lparr>hdr = [], sent_status = Some 200,
          sent_body = [Bytes ''old'']\<rparr>, status = 200, flushed = True\<rparr>,
        Request_ref = Some \<lparr>form = []\<rparr>, handlers = [[CallAbort]], index = 64\<rparr>,
      Acquire (Some 0), Acquire (Some 0)]"
  have e: "pool (New 7) = []" by (simp add: New_def)
  have v: "fst (run_pool ?ops (New 7)) =
     [\<lparr>Engine_ref = Some 7, Writer = OwnWritermem,
        writermem = \<lparr>ResponseWriter = None, status = 200, flushed = False\<rparr>,
        Request_ref = Some \<lparr>form = []\<rparr>, handlers = [], index = - 1\<rparr>,
      \<lparr>Engine_ref = Some 7, Writer = OwnWritermem,
        writermem = \<lparr>ResponseWriter = None, status = 200, flushed = False\<rparr>,
        Request_ref = None, handlers = [], index = - 1\<rparr>]"
    by (simp add: New_def reuseContext_def pool_Put_def acquire_def pool_Get_def pool_New_def
        zero_Context_def zero_responseWriter_def)
  from pool_acquire_reset [of ?ops "New 7" None] e
  have "list_all clean (fst (run_pool ?ops (New 7)))"
    and "acquire None (New 7) =
        (\<lparr>Engine_ref = Some (self (New 7)), Writer = OwnWritermem,
          writermem = \<lparr>ResponseWriter = None, status = 200, flushed = False\<rparr>,
          Request_ref = None, handlers = [], index = - 1\<rparr>, New 7)"
    by blast+
  with e v show ?thesis by (simp add: New_def)
qed

end
